theory Spec2Isabelle
  imports Main "HOL-Library.Word"
begin

unbundle bit_operations_syntax

section \<open>Data model\<close>

text \<open>
  The fixed-width integer types of \<^verbatim>\<open>types.h\<close>. A signed byte and an unsigned byte are
  both 8-bit words; signed comparisons read them with \<open>sint\<close>, unsigned ones with the
  word order. Arithmetic is done by the C++ code in \<^verbatim>\<open>int\<close> and narrowed back to one
  byte, which is arithmetic modulo 256 on the word.
\<close>

type_synonym int8 = "8 word"
type_synonym uint8 = "8 word"
type_synonym uint16 = "16 word"
type_synonym uint32 = "32 word"

type_synonym Player = int8
type_synonym Move = uint8
type_synonym NodeType = uint8

definition NODE_TYPE_EXACT :: NodeType where
  "NODE_TYPE_EXACT = 1"

definition NODE_TYPE_LOWER :: NodeType where
  "NODE_TYPE_LOWER = 2"

definition NODE_TYPE_UPPER :: NodeType where
  "NODE_TYPE_UPPER = 3"

record GameState =
  lastMove :: Move
  total :: int8
  activePlayer :: Player
  winner :: Player

text \<open>
  The transposition table: an array of 2^32 16-bit entries indexed by the hash value,
  allocated with \<^verbatim>\<open>calloc\<close>, hence all zero at the start.
\<close>

type_synonym TTable = "uint32 \<Rightarrow> uint16"

definition emptyTable :: TTable where
  "emptyTable = (\<lambda>_. 0)"

section \<open>Hashing and table entries\<close>

definition hash :: "GameState \<Rightarrow> uint32" where
  "hash state =
     ucast (total state + 128)
     OR push_bit 8 (ucast (activePlayer state + 128))
     OR push_bit 16 (ucast (winner state + 128))
     OR push_bit 24 (ucast (lastMove state))"

definition makeTTVal :: "uint8 \<Rightarrow> int8 \<Rightarrow> NodeType \<Rightarrow> uint16" where
  "makeTTVal depth eval type =
     push_bit 8 (ucast depth) OR push_bit 6 (ucast type) OR ucast eval"

definition getDepth :: "TTable \<Rightarrow> uint32 \<Rightarrow> uint8" where
  "getDepth tt h = ucast (drop_bit 8 (tt h))"

definition getRating :: "TTable \<Rightarrow> uint32 \<Rightarrow> int8" where
  "getRating tt h = ucast (tt h AND 63)"

definition getNodeType :: "TTable \<Rightarrow> uint32 \<Rightarrow> NodeType" where
  "getNodeType tt h = ucast (drop_bit 6 (tt h) AND 3)"

section \<open>Rules of the game\<close>

definition createGameState :: "Move \<Rightarrow> Player \<Rightarrow> int8 \<Rightarrow> GameState" where
  "createGameState lm player tot =
     \<lparr>lastMove = lm, total = tot, activePlayer = player, winner = 0\<rparr>"

definition performMove :: "GameState \<Rightarrow> Move \<Rightarrow> GameState" where
  "performMove state move =
     (let newTotal = total state - move in
      \<lparr>lastMove = move,
       total = newTotal,
       activePlayer = - activePlayer state,
       winner = (if sint newTotal \<le> 0 then - activePlayer state else 0)\<rparr>)"

text \<open>
  \<^verbatim>\<open>getPossibleStates\<close> writes the four successors into the array \<open>out\<close>. Its
  \<^verbatim>\<open>switch\<close> has no default: for a \<open>lastMove\<close> outside 1..6 the array is left as it
  was.
\<close>

definition getPossibleStates :: "GameState list \<Rightarrow> GameState \<Rightarrow> GameState list" where
  "getPossibleStates out lastState =
     (if lastMove lastState = 6 \<or> lastMove lastState = 1 then
        [performMove lastState 5, performMove lastState 4,
         performMove lastState 3, performMove lastState 2]
      else if lastMove lastState = 5 \<or> lastMove lastState = 2 then
        [performMove lastState 6, performMove lastState 4,
         performMove lastState 3, performMove lastState 1]
      else if lastMove lastState = 4 \<or> lastMove lastState = 3 then
        [performMove lastState 6, performMove lastState 5,
         performMove lastState 2, performMove lastState 1]
      else out)"

definition eval :: "GameState \<Rightarrow> int8" where
  "eval state = (if sint (total state) \<le> 0 then winner state else 0)"

section \<open>Search\<close>

text \<open>
  Lines 227 to 258 of the child loop: the transposition table lookup for the successor
  with hash value \<open>hashVal\<close>. It either makes \<^verbatim>\<open>miniMax\<close> return at once, or
  goes on to the recursive call with a possibly narrowed window.
\<close>

datatype Lookup = Return int8 | Continue int8 int8

definition ttLookup :: "TTable \<Rightarrow> uint32 \<Rightarrow> uint8 \<Rightarrow> int8 \<Rightarrow> int8 \<Rightarrow> int8 \<Rightarrow> Lookup" where
  "ttLookup tt hashVal depth alpha beta mx =
     (let ttDepth = getDepth tt hashVal in
      if 0 < ttDepth \<and> depth \<le> ttDepth then
        let ev = getRating tt hashVal;
            nt = getNodeType tt hashVal
        in if nt = NODE_TYPE_EXACT then Return ev
           else
             let alpha' = (if nt = NODE_TYPE_LOWER \<and> sint alpha < sint ev then ev else alpha);
                 beta' = (if nt = NODE_TYPE_UPPER \<and> sint ev < sint beta then ev else beta)
             in if sint beta' \<le> sint alpha'
                then Return (if sint mx < sint ev then ev else mx)
                else Continue alpha' beta'
      else Continue alpha beta)"

text \<open>Lines 274 to 283: the node type under which a value is stored.\<close>

definition storeType :: "int8 \<Rightarrow> int8 \<Rightarrow> int8 \<Rightarrow> NodeType" where
  "storeType val alpha beta =
     (if sint val \<le> sint alpha then NODE_TYPE_UPPER
      else if sint beta \<le> sint val then NODE_TYPE_LOWER
      else NODE_TYPE_EXACT)"

text \<open>
  The loop over the successors, from the successor \<open>possibleNext\<close> on. The recursive
  call \<^verbatim>\<open>miniMax(possibleNext, depth - 1, alpha, beta)\<close> is the parameter \<open>rec\<close>; it
  yields \<open>None\<close> where the behaviour of the C++ code is undefined.
\<close>

primrec childLoop ::
  "(GameState \<Rightarrow> int8 \<Rightarrow> int8 \<Rightarrow> TTable \<Rightarrow> (int8 \<times> TTable) option) \<Rightarrow>
   uint8 \<Rightarrow> GameState list \<Rightarrow> int8 \<Rightarrow> int8 \<Rightarrow> int8 \<Rightarrow> TTable \<Rightarrow> (int8 \<times> TTable) option" where
  "childLoop rec depth [] alpha beta mx tt = Some (mx, tt)"
| "childLoop rec depth (possibleNext # rest) alpha beta mx tt =
     (case ttLookup tt (hash possibleNext) depth alpha beta mx of
        Return v \<Rightarrow> Some (v, tt)
      | Continue alpha' beta' \<Rightarrow>
          (case rec possibleNext alpha' beta' tt of
             None \<Rightarrow> None
           | Some (r, tt') \<Rightarrow>
               let val = - r;
                   mx' = (if sint mx < sint val then val else mx);
                   tt'' = tt'(hash possibleNext :=
                            makeTTVal depth val (storeType val alpha' beta'))
               in childLoop rec depth rest alpha' beta' mx' tt''))"

lemma childLoop_cong [fundef_cong]:
  assumes "depth = depth'" "ps = ps'" "alpha = alpha'" "beta = beta'" "mx = mx'" "tt = tt'"
    and "\<And>p a b t. p \<in> set ps' \<Longrightarrow> rec p a b t = rec' p a b t"
  shows "childLoop rec depth ps alpha beta mx tt = childLoop rec' depth' ps' alpha' beta' mx' tt'"
proof -
  have "childLoop rec depth' ps' a b m t = childLoop rec' depth' ps' a b m t" for a b m t
    using assms(7)
  proof (induction ps' arbitrary: a b m t)
    case Nil
    show ?case by simp
  next
    case (Cons p ps')
    then show ?case
      by (simp split: Lookup.split option.split prod.split)
  qed
  with assms(1-6) show ?thesis by simp
qed

definition validMove :: "Move \<Rightarrow> bool" where
  "validMove m \<longleftrightarrow> m = 1 \<or> m = 2 \<or> m = 3 \<or> m = 4 \<or> m = 5 \<or> m = 6"

text \<open>
  \<^verbatim>\<open>miniMax\<close>, with the global table passed in and returned. The local array
  \<^verbatim>\<open>gameStates\<close> is not initialised: when \<^verbatim>\<open>getPossibleStates\<close> leaves it
  unwritten (a \<open>lastMove\<close> outside 1..6), the loop reads indeterminate values and the
  result is \<open>None\<close>.
\<close>

function miniMax ::
  "GameState \<Rightarrow> uint8 \<Rightarrow> int8 \<Rightarrow> int8 \<Rightarrow> TTable \<Rightarrow> (int8 \<times> TTable) option" where
  "miniMax curState depth alpha beta tt =
     (if depth = 0 \<or> sint (total curState) \<le> 0 then
        Some (activePlayer curState * eval curState, tt)
      else if \<not> validMove (lastMove curState) then None
      else childLoop (\<lambda>possibleNext a b t. miniMax possibleNext (depth - 1) a b t)
             depth (getPossibleStates [] curState) alpha beta (- 1) tt)"
  by pat_completeness auto
termination
proof (relation "measure (\<lambda>(curState, depth, alpha, beta, tt). unat depth)")
  show "wf (measure (\<lambda>(curState, depth, alpha, beta, tt). unat depth))"
    by simp
next
  fix curState :: GameState and depth :: uint8 and alpha beta :: int8 and tt :: TTable
    and p :: GameState and a b :: int8 and t :: TTable
  assume "\<not> (depth = 0 \<or> sint (total curState) \<le> 0)"
  then have "depth \<noteq> 0" by simp
  then have "unat (depth - 1) < unat depth"
    by (simp add: unat_minus_one unat_gt_0)
  then show "((p, depth - 1, a, b, t), (curState, depth, alpha, beta, tt))
      \<in> measure (\<lambda>(curState, depth, alpha, beta, tt). unat depth)"
    by simp
qed

declare miniMax.simps [simp del]


section \<open>Well-formed configurations\<close>

text \<open>
  The configurations of the data model: a die face as last move, one of the two players
  to move, and a winner field that is a player or zero.
\<close>

definition wfState :: "GameState \<Rightarrow> bool" where
  "wfState c \<longleftrightarrow>
     validMove (lastMove c)
     \<and> (activePlayer c = 1 \<or> activePlayer c = - 1)
     \<and> (winner c = 0 \<or> winner c = 1 \<or> winner c = - 1)"

text \<open>The legal faces after a given last move, in ascending order.\<close>

definition legalFaces :: "Move \<Rightarrow> Move list" where
  "legalFaces lm = filter (\<lambda>m. m \<noteq> lm \<and> unat m + unat lm \<noteq> 7) [1, 2, 3, 4, 5, 6]"

section \<open>The state encoder\<close>

lemma hash_byte0: "(ucast (hash s) :: 8 word) = total s + 128"
  by (rule bit_word_eqI) (auto simp: hash_def bit_simps dest: bit_imp_le_length)

lemma hash_byte1: "(ucast (drop_bit 8 (hash s)) :: 8 word) = activePlayer s + 128"
  by (rule bit_word_eqI) (auto simp: hash_def bit_simps dest: bit_imp_le_length)

lemma hash_byte2: "(ucast (drop_bit 16 (hash s)) :: 8 word) = winner s + 128"
  by (rule bit_word_eqI) (auto simp: hash_def bit_simps dest: bit_imp_le_length)

lemma hash_byte3: "(ucast (drop_bit 24 (hash s)) :: 8 word) = lastMove s"
  by (rule bit_word_eqI) (auto simp: hash_def bit_simps dest: bit_imp_le_length)

lemma hash_eq_iff: "hash s1 = hash s2 \<longleftrightarrow> s1 = s2"
proof
  assume h: "hash s1 = hash s2"
  have "total s1 + 128 = total s2 + 128"
    using hash_byte0 [of s1] hash_byte0 [of s2] h by simp
  moreover have "activePlayer s1 + 128 = activePlayer s2 + 128"
    using hash_byte1 [of s1] hash_byte1 [of s2] h by simp
  moreover have "winner s1 + 128 = winner s2 + 128"
    using hash_byte2 [of s1] hash_byte2 [of s2] h by simp
  moreover have "lastMove s1 = lastMove s2"
    using hash_byte3 [of s1] hash_byte3 [of s2] h by simp
  ultimately show "s1 = s2" by simp
next
  assume "s1 = s2"
  then show "hash s1 = hash s2" by simp
qed

text \<open>
  Claim C3. The state encoder is injective on all configurations: two configurations that
  differ in any of the four fields \<open>lastMove\<close>, \<open>total\<close>, \<open>activePlayer\<close>, \<open>winner\<close>
  have different 32-bit keys. This covers in particular the configurations reachable
  from a legal start.
\<close>

theorem hash_injective:
  "(lastMove s1 \<noteq> lastMove s2 \<or> total s1 \<noteq> total s2
      \<or> activePlayer s1 \<noteq> activePlayer s2 \<or> winner s1 \<noteq> winner s2)
   \<longrightarrow> hash s1 \<noteq> hash s2"
  by (auto simp: hash_eq_iff)

theorem hash_injective_witness:
  "hash \<lparr>lastMove = 3, total = 20, activePlayer = 1, winner = 0\<rparr>
     \<noteq> hash \<lparr>lastMove = 3, total = 20, activePlayer = - 1, winner = 0\<rparr>"
  using hash_injective [of "\<lparr>lastMove = 3, total = 20, activePlayer = 1, winner = 0\<rparr>"
      "\<lparr>lastMove = 3, total = 20, activePlayer = - 1, winner = 0\<rparr>"]
  by simp

section \<open>The rule engine\<close>

lemma sint_minus_move:
  fixes t m :: "8 word"
  assumes "- 128 \<le> sint t - uint m"
  shows "sint (t - m) = sint t - uint m"
proof -
  have "sint t < 128"
    using sint_lt [of t] by simp
  moreover have "0 \<le> uint m"
    by simp
  ultimately have up: "sint t - uint m < 128"
    by linarith
  have "t - m = word_of_int (sint t - uint m)"
    by simp
  then have "sint (t - m) = signed_take_bit 7 (sint t - uint m)"
    by (simp only: sint_sbintrunc') simp
  moreover have "signed_take_bit 7 (sint t - uint m) = sint t - uint m"
    using assms up by (intro signed_take_bit_int_eq_self) simp_all
  ultimately show ?thesis by simp
qed

text \<open>
  Claim C2. \<open>performMove\<close> returns the configuration whose total is the old total minus
  the move, whose active player is the negation of the old one, whose last move is the
  move, and whose winner is the new active player when the new total is at most zero and
  zero otherwise; so a terminal result names as winner the player who did not move. The
  fields are signed bytes: the equations hold in the byte arithmetic of the program, and
  read as integers whenever the difference is still a signed byte.
\<close>

theorem performMove_fields:
  "total (performMove state move) = total state - move
   \<and> activePlayer (performMove state move) = - activePlayer state
   \<and> lastMove (performMove state move) = move
   \<and> winner (performMove state move) =
       (if sint (total (performMove state move)) \<le> 0
        then activePlayer (performMove state move) else 0)
   \<and> (sint (total (performMove state move)) \<le> 0 \<longrightarrow>
        winner (performMove state move) = - activePlayer state)
   \<and> (- 128 \<le> sint (total state) - uint move \<longrightarrow>
        sint (total (performMove state move)) = sint (total state) - uint move)
   \<and> ((activePlayer state = 1 \<or> activePlayer state = - 1) \<longrightarrow>
        sint (total (performMove state move)) \<le> 0 \<longrightarrow>
        winner (performMove state move) \<noteq> activePlayer state)"
  by (auto simp: performMove_def Let_def sint_minus_move)

theorem performMove_fields_witness:
  "(- 128 \<le> sint (3 :: int8) - uint (5 :: uint8))
   \<and> ((1 :: int8) = 1 \<or> (1 :: int8) = - 1)
   \<and> sint (total (performMove \<lparr>lastMove = 1, total = 3, activePlayer = 1, winner = 0\<rparr> 5)) = - 2
   \<and> winner (performMove \<lparr>lastMove = 1, total = 3, activePlayer = 1, winner = 0\<rparr> 5) = - 1
   \<and> activePlayer (performMove \<lparr>lastMove = 1, total = 3, activePlayer = 1, winner = 0\<rparr> 5) = - 1
   \<and> lastMove (performMove \<lparr>lastMove = 1, total = 3, activePlayer = 1, winner = 0\<rparr> 5) = 5"
  using performMove_fields [of "\<lparr>lastMove = 1, total = 3, activePlayer = 1, winner = 0\<rparr>" 5]
  by simp

lemma getPossibleStates_faces:
  "validMove (lastMove c) \<Longrightarrow>
   map lastMove (getPossibleStates out c) = rev (legalFaces (lastMove c))"
  by (auto simp: validMove_def getPossibleStates_def legalFaces_def performMove_def Let_def)

text \<open>
  Claim C7. For a configuration whose last move is a die face, \<open>getPossibleStates\<close>
  produces exactly four successors, each made by \<open>performMove\<close> with a face that is
  neither the last move nor its complement to seven; the four faces are distinct.
\<close>

theorem getPossibleStates_legal:
  assumes "validMove (lastMove c)"
  shows "length (getPossibleStates out c) = 4
    \<and> (\<forall>s \<in> set (getPossibleStates out c).
          lastMove s \<noteq> lastMove c \<and> unat (lastMove s) + unat (lastMove c) \<noteq> 7
          \<and> validMove (lastMove s) \<and> s = performMove c (lastMove s))
    \<and> distinct (map lastMove (getPossibleStates out c))"
  using assms
  by (auto simp: validMove_def getPossibleStates_def performMove_def Let_def)

theorem getPossibleStates_legal_witness:
  "validMove (lastMove \<lparr>lastMove = 3, total = 20, activePlayer = 1, winner = 0\<rparr>)
   \<and> length (getPossibleStates [] \<lparr>lastMove = 3, total = 20, activePlayer = 1, winner = 0\<rparr>) = 4
   \<and> distinct (map lastMove
         (getPossibleStates [] \<lparr>lastMove = 3, total = 20, activePlayer = 1, winner = 0\<rparr>))"
proof -
  have v: "validMove (lastMove \<lparr>lastMove = 3, total = 20, activePlayer = 1, winner = 0\<rparr>)"
    by (simp add: validMove_def)
  show ?thesis
    using v getPossibleStates_legal [OF v, of "[]"] by simp
qed

text \<open>
  Claim C6, as stated: the i-th successor carries the i-th smallest legal face, that is,
  the faces of the successors are \<open>legalFaces\<close> in ascending order. This fails: after a
  last move of 1 the first successor is made with face 5, not with face 2.
\<close>

theorem getPossibleStates_ascending_counterexample:
  "map lastMove (getPossibleStates [] \<lparr>lastMove = 1, total = 20, activePlayer = 1, winner = 0\<rparr>)
     = [5, 4, 3, 2]
   \<and> legalFaces (lastMove \<lparr>lastMove = 1, total = 20, activePlayer = 1, winner = 0\<rparr>)
     = [2, 3, 4, 5]
   \<and> map lastMove (getPossibleStates [] \<lparr>lastMove = 1, total = 20, activePlayer = 1, winner = 0\<rparr>)
     \<noteq> legalFaces (lastMove \<lparr>lastMove = 1, total = 20, activePlayer = 1, winner = 0\<rparr>)"
  by (simp add: getPossibleStates_def legalFaces_def performMove_def Let_def)

text \<open>
  Claim C6, amended. For a configuration whose last move is a die face, the four legal
  faces are enumerated in descending face value: the i-th successor carries the i-th
  largest legal face.
\<close>

theorem getPossibleStates_descending:
  assumes "validMove (lastMove c)"
  shows "map lastMove (getPossibleStates out c) = rev (legalFaces (lastMove c))
    \<and> sorted (legalFaces (lastMove c)) \<and> distinct (legalFaces (lastMove c))
    \<and> set (legalFaces (lastMove c))
        = {m. validMove m \<and> m \<noteq> lastMove c \<and> unat m + unat (lastMove c) \<noteq> 7}"
proof -
  have "sorted (legalFaces (lastMove c)) \<and> distinct (legalFaces (lastMove c))"
    using assms by (auto simp: validMove_def legalFaces_def)
  moreover have "set (legalFaces (lastMove c))
        = {m. validMove m \<and> m \<noteq> lastMove c \<and> unat m + unat (lastMove c) \<noteq> 7}"
    by (auto simp: validMove_def legalFaces_def)
  ultimately show ?thesis
    using getPossibleStates_faces [OF assms] by simp
qed

theorem getPossibleStates_descending_witness:
  "validMove (lastMove \<lparr>lastMove = 1, total = 20, activePlayer = 1, winner = 0\<rparr>)
   \<and> map lastMove (getPossibleStates [] \<lparr>lastMove = 1, total = 20, activePlayer = 1, winner = 0\<rparr>)
       = rev [2, 3, 4, 5]"
proof -
  have v: "validMove (lastMove \<lparr>lastMove = 1, total = 20, activePlayer = 1, winner = 0\<rparr>)"
    by (simp add: validMove_def)
  show ?thesis
    using v getPossibleStates_descending [OF v, of "[]"]
    by (simp add: legalFaces_def)
qed

section \<open>Table entries\<close>

lemma entry_depth: "(ucast (drop_bit 8 (makeTTVal d v t)) :: uint8) = d OR drop_bit 2 t"
  by (rule bit_word_eqI) (auto simp: makeTTVal_def bit_simps dest: bit_imp_le_length)

lemma entry_rating: "(ucast (makeTTVal d v t AND 63) :: int8) = v AND 63"
proof -
  have m: "(63 :: uint16) = mask 6" "(63 :: int8) = mask 6"
    by (simp_all add: mask_eq_exp_minus_1)
  show ?thesis
    unfolding m
    by (rule bit_word_eqI) (auto simp: makeTTVal_def bit_simps dest: bit_imp_le_length)
qed

lemma entry_type: "(ucast (drop_bit 6 (makeTTVal d v t) AND 3) :: uint8) = (t OR drop_bit 6 v) AND 3"
proof -
  have m: "(3 :: uint16) = mask 2" "(3 :: uint8) = mask 2"
    by (simp_all add: mask_eq_exp_minus_1)
  show ?thesis
    unfolding m
    by (rule bit_word_eqI) (auto simp: makeTTVal_def bit_simps dest: bit_imp_le_length)
qed

lemma getDepth_store: "getDepth (tt(k := makeTTVal d v t)) k = d OR drop_bit 2 t"
  by (simp add: getDepth_def entry_depth)

lemma getRating_store: "getRating (tt(k := makeTTVal d v t)) k = v AND 63"
  by (simp add: getRating_def entry_rating)

lemma getNodeType_store: "getNodeType (tt(k := makeTTVal d v t)) k = (t OR drop_bit 6 v) AND 3"
  by (simp add: getNodeType_def entry_type)

text \<open>
  Claim C4. A record written with \<open>makeTTVal\<close> and read back at once should give the
  stored depth, the stored node type and the stored score in its low six bits. The code
  does not mask the score to six bits when it packs the record, so the two high bits of a
  negative score overwrite the node type: the EXACT record of score -1 at depth 1 reads
  back as an UPPER record of score 63. The depth and the six score bits are read back as
  stored.
\<close>

theorem makeTTVal_readback:
  "getNodeType (tt(k := makeTTVal 1 (- 1) NODE_TYPE_EXACT)) k = NODE_TYPE_UPPER
   \<and> getNodeType (tt(k := makeTTVal 1 (- 1) NODE_TYPE_EXACT)) k \<noteq> NODE_TYPE_EXACT
   \<and> getRating (tt(k := makeTTVal 1 (- 1) NODE_TYPE_EXACT)) k = 63
   \<and> getDepth (tt(k := makeTTVal 1 (- 1) NODE_TYPE_EXACT)) k = 1"
  by (simp add: getNodeType_store getRating_store getDepth_store
      NODE_TYPE_EXACT_def NODE_TYPE_UPPER_def mask_eq_exp_minus_1)

section \<open>The search: base case and table lookup\<close>

text \<open>
  Claim C8. When the depth is exhausted or the configuration is terminal, \<open>miniMax\<close>
  returns \<open>activePlayer * eval\<close> and leaves the table alone, where \<open>eval\<close> is the
  winner of a terminal configuration and zero otherwise; so a call that runs out of depth
  on a configuration that is not terminal returns 0. The product is the product of the
  two signed bytes, and for a configuration of the data model also their integer product.
\<close>

theorem miniMax_base_case:
  "(depth = 0 \<or> sint (total c) \<le> 0 \<longrightarrow>
      miniMax c depth alpha beta tt = Some (activePlayer c * eval c, tt))
   \<and> eval c = (if sint (total c) \<le> 0 then winner c else 0)
   \<and> (depth = 0 \<and> 0 < sint (total c) \<longrightarrow> miniMax c depth alpha beta tt = Some (0, tt))
   \<and> (wfState c \<longrightarrow> sint (activePlayer c * eval c) = sint (activePlayer c) * sint (eval c))"
  by (auto simp: miniMax.simps eval_def wfState_def)

theorem miniMax_base_case_witness:
  "sint (total \<lparr>lastMove = 5, total = - 2, activePlayer = - 1, winner = - 1\<rparr>) \<le> 0
   \<and> miniMax \<lparr>lastMove = 5, total = - 2, activePlayer = - 1, winner = - 1\<rparr> 7 (- 128) 127 emptyTable
       = Some (1, emptyTable)
   \<and> 0 < sint (total \<lparr>lastMove = 5, total = 9, activePlayer = - 1, winner = 0\<rparr>)
   \<and> miniMax \<lparr>lastMove = 5, total = 9, activePlayer = - 1, winner = 0\<rparr> 0 (- 128) 127 emptyTable
       = Some (0, emptyTable)"
  using miniMax_base_case [of 7 "\<lparr>lastMove = 5, total = - 2, activePlayer = - 1, winner = - 1\<rparr>"
      "- 128" 127 emptyTable]
    miniMax_base_case [of 0 "\<lparr>lastMove = 5, total = 9, activePlayer = - 1, winner = 0\<rparr>"
      "- 128" 127 emptyTable]
  by simp

lemma iteration_lookup:
  fixes rec depth p rest alpha beta mx tt
  defines "stored \<equiv> getDepth tt (hash p)"
    and "score \<equiv> getRating tt (hash p)"
    and "bound \<equiv> getNodeType tt (hash p)"
  shows
  "(\<not> (0 < stored \<and> depth \<le> stored) \<longrightarrow>
      ttLookup tt (hash p) depth alpha beta mx = Continue alpha beta)
   \<and> (0 < stored \<and> depth \<le> stored \<and> bound = NODE_TYPE_EXACT \<longrightarrow>
      childLoop rec depth (p # rest) alpha beta mx tt = Some (score, tt))
   \<and> (0 < stored \<and> depth \<le> stored \<and> bound = NODE_TYPE_LOWER \<longrightarrow>
      (let alpha' = (if sint alpha < sint score then score else alpha) in
       if sint beta \<le> sint alpha'
       then childLoop rec depth (p # rest) alpha beta mx tt
              = Some (if sint mx < sint score then score else mx, tt)
       else ttLookup tt (hash p) depth alpha beta mx = Continue alpha' beta))
   \<and> (0 < stored \<and> depth \<le> stored \<and> bound = NODE_TYPE_UPPER \<longrightarrow>
      (let beta' = (if sint score < sint beta then score else beta) in
       if sint beta' \<le> sint alpha
       then childLoop rec depth (p # rest) alpha beta mx tt
              = Some (if sint mx < sint score then score else mx, tt)
       else ttLookup tt (hash p) depth alpha beta mx = Continue alpha beta'))
   \<and> (\<forall>alpha' beta'. ttLookup tt (hash p) depth alpha beta mx = Continue alpha' beta' \<longrightarrow>
        childLoop rec depth (p # rest) alpha beta mx tt =
          (case rec p alpha' beta' tt of
             None \<Rightarrow> None
           | Some (r, tt') \<Rightarrow>
               childLoop rec depth rest alpha' beta' (if sint mx < sint (- r) then - r else mx)
                 (tt'(hash p := makeTTVal depth (- r) (storeType (- r) alpha' beta')))))"
  by (auto simp: stored_def score_def bound_def ttLookup_def Let_def
      NODE_TYPE_EXACT_def NODE_TYPE_LOWER_def NODE_TYPE_UPPER_def split: option.split)

text \<open>
  Claim C5. Take a call of \<open>miniMax\<close> that is past the base case, with successors
  \<open>p # rest\<close>. It runs the child loop over these successors at its own depth, with
  itself at depth - 1 as the recursive call. The record of a successor is consulted only
  when its stored depth is positive and at least the depth of the call; otherwise the
  successor is searched under the unchanged window. A consulted EXACT record makes
  \<open>miniMax\<close> return its stored score at once, with the table unchanged. A consulted LOWER
  record raises alpha to the stored score if that is higher, a consulted UPPER record
  lowers beta to the stored score if that is lower; if then beta is at most alpha,
  \<open>miniMax\<close> returns the larger of the stored score and the running maximum, again
  without searching this successor or a later one; otherwise the successor is searched
  under the narrowed window. The clauses are stated for the first successor as equations
  of \<open>miniMax\<close>, and for every later iteration of its loop.
\<close>

theorem miniMax_lookup:
  fixes c :: GameState and depth :: uint8 and alpha beta :: int8 and tt :: TTable
    and p :: GameState and rest :: "GameState list"
  assumes "depth \<noteq> 0" "0 < sint (total c)" "validMove (lastMove c)"
    and "getPossibleStates [] c = p # rest"
  defines "stored \<equiv> getDepth tt (hash p)"
    and "score \<equiv> getRating tt (hash p)"
    and "bound \<equiv> getNodeType tt (hash p)"
    and "rec \<equiv> (\<lambda>q a b t. miniMax q (depth - 1) a b t)"
  defines "search \<equiv> (\<lambda>alpha' beta'.
      case miniMax p (depth - 1) alpha' beta' tt of
        None \<Rightarrow> None
      | Some (r, tt') \<Rightarrow>
          childLoop rec depth rest alpha' beta' (if sint (- 1 :: int8) < sint (- r) then - r else - 1)
            (tt'(hash p := makeTTVal depth (- r) (storeType (- r) alpha' beta'))))"
  shows
  "miniMax c depth alpha beta tt
      = childLoop rec depth (getPossibleStates [] c) alpha beta (- 1) tt
   \<and> (\<not> (0 < stored \<and> depth \<le> stored) \<longrightarrow> miniMax c depth alpha beta tt = search alpha beta)
   \<and> (0 < stored \<and> depth \<le> stored \<and> bound = NODE_TYPE_EXACT \<longrightarrow>
        miniMax c depth alpha beta tt = Some (score, tt))
   \<and> (0 < stored \<and> depth \<le> stored \<and> bound = NODE_TYPE_LOWER \<longrightarrow>
        (let alpha' = (if sint alpha < sint score then score else alpha) in
         if sint beta \<le> sint alpha'
         then miniMax c depth alpha beta tt = Some (if sint (- 1 :: int8) < sint score then score else - 1, tt)
         else miniMax c depth alpha beta tt = search alpha' beta))
   \<and> (0 < stored \<and> depth \<le> stored \<and> bound = NODE_TYPE_UPPER \<longrightarrow>
        (let beta' = (if sint score < sint beta then score else beta) in
         if sint beta' \<le> sint alpha
         then miniMax c depth alpha beta tt = Some (if sint (- 1 :: int8) < sint score then score else - 1, tt)
         else miniMax c depth alpha beta tt = search alpha beta'))
   \<and> (\<forall>q qs a b mx t.
        (\<not> (0 < getDepth t (hash q) \<and> depth \<le> getDepth t (hash q)) \<longrightarrow>
           ttLookup t (hash q) depth a b mx = Continue a b)
        \<and> (0 < getDepth t (hash q) \<and> depth \<le> getDepth t (hash q)
             \<and> getNodeType t (hash q) = NODE_TYPE_EXACT \<longrightarrow>
           childLoop rec depth (q # qs) a b mx t = Some (getRating t (hash q), t))
        \<and> (0 < getDepth t (hash q) \<and> depth \<le> getDepth t (hash q)
             \<and> getNodeType t (hash q) = NODE_TYPE_LOWER \<longrightarrow>
           (let a' = (if sint a < sint (getRating t (hash q)) then getRating t (hash q) else a) in
            if sint b \<le> sint a'
            then childLoop rec depth (q # qs) a b mx t
                   = Some (if sint mx < sint (getRating t (hash q))
                           then getRating t (hash q) else mx, t)
            else ttLookup t (hash q) depth a b mx = Continue a' b))
        \<and> (0 < getDepth t (hash q) \<and> depth \<le> getDepth t (hash q)
             \<and> getNodeType t (hash q) = NODE_TYPE_UPPER \<longrightarrow>
           (let b' = (if sint (getRating t (hash q)) < sint b then getRating t (hash q) else b) in
            if sint b' \<le> sint a
            then childLoop rec depth (q # qs) a b mx t
                   = Some (if sint mx < sint (getRating t (hash q))
                           then getRating t (hash q) else mx, t)
            else ttLookup t (hash q) depth a b mx = Continue a b'))
        \<and> (\<forall>a' b'. ttLookup t (hash q) depth a b mx = Continue a' b' \<longrightarrow>
             childLoop rec depth (q # qs) a b mx t =
               (case miniMax q (depth - 1) a' b' t of
                  None \<Rightarrow> None
                | Some (r, t') \<Rightarrow>
                    childLoop rec depth qs a' b' (if sint mx < sint (- r) then - r else mx)
                      (t'(hash q := makeTTVal depth (- r) (storeType (- r) a' b'))))))"
proof -
  have link: "miniMax c depth alpha beta tt
      = childLoop rec depth (getPossibleStates [] c) alpha beta (- 1) tt"
    using assms(1-3) by (simp add: miniMax.simps [of c] rec_def)
  have first: "miniMax c depth alpha beta tt = childLoop rec depth (p # rest) alpha beta (- 1) tt"
    using link assms(4) by simp
  have iter: "childLoop rec depth (p # rest) alpha beta (- 1) tt =
      (case ttLookup tt (hash p) depth alpha beta (- 1) of
         Return v \<Rightarrow> Some (v, tt)
       | Continue alpha' beta' \<Rightarrow> search alpha' beta')"
    by (simp add: search_def rec_def Let_def split: Lookup.split option.split)
  have head: "(\<not> (0 < stored \<and> depth \<le> stored) \<longrightarrow> miniMax c depth alpha beta tt = search alpha beta)
   \<and> (0 < stored \<and> depth \<le> stored \<and> bound = NODE_TYPE_EXACT \<longrightarrow>
        miniMax c depth alpha beta tt = Some (score, tt))
   \<and> (0 < stored \<and> depth \<le> stored \<and> bound = NODE_TYPE_LOWER \<longrightarrow>
        (let alpha' = (if sint alpha < sint score then score else alpha) in
         if sint beta \<le> sint alpha'
         then miniMax c depth alpha beta tt = Some (if sint (- 1 :: int8) < sint score then score else - 1, tt)
         else miniMax c depth alpha beta tt = search alpha' beta))
   \<and> (0 < stored \<and> depth \<le> stored \<and> bound = NODE_TYPE_UPPER \<longrightarrow>
        (let beta' = (if sint score < sint beta then score else beta) in
         if sint beta' \<le> sint alpha
         then miniMax c depth alpha beta tt = Some (if sint (- 1 :: int8) < sint score then score else - 1, tt)
         else miniMax c depth alpha beta tt = search alpha beta'))"
    unfolding first iter
    by (auto simp: stored_def score_def bound_def ttLookup_def Let_def
        NODE_TYPE_EXACT_def NODE_TYPE_LOWER_def NODE_TYPE_UPPER_def)
  have later: "(\<not> (0 < getDepth t (hash q) \<and> depth \<le> getDepth t (hash q)) \<longrightarrow>
           ttLookup t (hash q) depth a b mx = Continue a b)
        \<and> (0 < getDepth t (hash q) \<and> depth \<le> getDepth t (hash q)
             \<and> getNodeType t (hash q) = NODE_TYPE_EXACT \<longrightarrow>
           childLoop rec depth (q # qs) a b mx t = Some (getRating t (hash q), t))
        \<and> (0 < getDepth t (hash q) \<and> depth \<le> getDepth t (hash q)
             \<and> getNodeType t (hash q) = NODE_TYPE_LOWER \<longrightarrow>
           (let a' = (if sint a < sint (getRating t (hash q)) then getRating t (hash q) else a) in
            if sint b \<le> sint a'
            then childLoop rec depth (q # qs) a b mx t
                   = Some (if sint mx < sint (getRating t (hash q))
                           then getRating t (hash q) else mx, t)
            else ttLookup t (hash q) depth a b mx = Continue a' b))
        \<and> (0 < getDepth t (hash q) \<and> depth \<le> getDepth t (hash q)
             \<and> getNodeType t (hash q) = NODE_TYPE_UPPER \<longrightarrow>
           (let b' = (if sint (getRating t (hash q)) < sint b then getRating t (hash q) else b) in
            if sint b' \<le> sint a
            then childLoop rec depth (q # qs) a b mx t
                   = Some (if sint mx < sint (getRating t (hash q))
                           then getRating t (hash q) else mx, t)
            else ttLookup t (hash q) depth a b mx = Continue a b'))
        \<and> (\<forall>a' b'. ttLookup t (hash q) depth a b mx = Continue a' b' \<longrightarrow>
             childLoop rec depth (q # qs) a b mx t =
               (case miniMax q (depth - 1) a' b' t of
                  None \<Rightarrow> None
                | Some (r, t') \<Rightarrow>
                    childLoop rec depth qs a' b' (if sint mx < sint (- r) then - r else mx)
                      (t'(hash q := makeTTVal depth (- r) (storeType (- r) a' b')))))"
    for q qs a b mx t
    using iteration_lookup [of t q depth a b mx rec qs] by (simp only: rec_def)
  from link head later show ?thesis
    by blast
qed

theorem miniMax_lookup_witness:
  "(2 :: uint8) \<noteq> 0
   \<and> 0 < sint (total \<lparr>lastMove = 1, total = 11, activePlayer = 1, winner = 0\<rparr>)
   \<and> validMove (lastMove \<lparr>lastMove = 1, total = 11, activePlayer = 1, winner = 0\<rparr>)
   \<and> getPossibleStates [] \<lparr>lastMove = 1, total = 11, activePlayer = 1, winner = 0\<rparr>
       = [\<lparr>lastMove = 5, total = 6, activePlayer = - 1, winner = 0\<rparr>,
          \<lparr>lastMove = 4, total = 7, activePlayer = - 1, winner = 0\<rparr>,
          \<lparr>lastMove = 3, total = 8, activePlayer = - 1, winner = 0\<rparr>,
          \<lparr>lastMove = 2, total = 9, activePlayer = - 1, winner = 0\<rparr>]
   \<and> miniMax \<lparr>lastMove = 1, total = 11, activePlayer = 1, winner = 0\<rparr> 2 (- 128) 127
         (emptyTable(hash \<lparr>lastMove = 5, total = 6, activePlayer = - 1, winner = 0\<rparr>
            := makeTTVal 3 1 NODE_TYPE_EXACT))
       = Some (1, emptyTable(hash \<lparr>lastMove = 5, total = 6, activePlayer = - 1, winner = 0\<rparr>
            := makeTTVal 3 1 NODE_TYPE_EXACT))
   \<and> miniMax \<lparr>lastMove = 1, total = 11, activePlayer = 1, winner = 0\<rparr> 2 0 127
         (emptyTable(hash \<lparr>lastMove = 5, total = 6, activePlayer = - 1, winner = 0\<rparr>
            := makeTTVal 3 0 NODE_TYPE_UPPER))
       = Some (0, emptyTable(hash \<lparr>lastMove = 5, total = 6, activePlayer = - 1, winner = 0\<rparr>
            := makeTTVal 3 0 NODE_TYPE_UPPER))
   \<and> miniMax \<lparr>lastMove = 1, total = 11, activePlayer = 1, winner = 0\<rparr> 2 0 1
         (emptyTable(hash \<lparr>lastMove = 5, total = 6, activePlayer = - 1, winner = 0\<rparr>
            := makeTTVal 2 1 NODE_TYPE_LOWER))
       = Some (1, emptyTable(hash \<lparr>lastMove = 5, total = 6, activePlayer = - 1, winner = 0\<rparr>
            := makeTTVal 2 1 NODE_TYPE_LOWER))"
proof -
  let ?c = "\<lparr>lastMove = 1, total = 11, activePlayer = 1, winner = 0\<rparr>"
  let ?p = "\<lparr>lastMove = 5, total = 6, activePlayer = - 1, winner = 0\<rparr>"
  let ?rest = "[\<lparr>lastMove = 4, total = 7, activePlayer = - 1, winner = 0\<rparr>,
          \<lparr>lastMove = 3, total = 8, activePlayer = - 1, winner = 0\<rparr>,
          \<lparr>lastMove = 2, total = 9, activePlayer = - 1, winner = 0\<rparr>]"
  note rd = getDepth_store getRating_store getNodeType_store
    NODE_TYPE_EXACT_def NODE_TYPE_LOWER_def NODE_TYPE_UPPER_def
  have d: "(2 :: uint8) \<noteq> 0"
    by simp
  have t: "0 < sint (total ?c)"
    by simp
  have v: "validMove (lastMove ?c)"
    by (simp add: validMove_def)
  have g: "getPossibleStates [] ?c = ?p # ?rest"
    by (simp add: getPossibleStates_def performMove_def)
  have "miniMax ?c 2 (- 128) 127 (emptyTable(hash ?p := makeTTVal 3 1 NODE_TYPE_EXACT))
      = Some (1, emptyTable(hash ?p := makeTTVal 3 1 NODE_TYPE_EXACT))"
    using miniMax_lookup [OF d t v g,
        where tt = "emptyTable(hash ?p := makeTTVal 3 1 NODE_TYPE_EXACT)"
        and alpha = "- 128" and beta = 127, THEN conjunct2, THEN conjunct2, THEN conjunct1]
    by (simp add: rd del: childLoop.simps)
  moreover have "miniMax ?c 2 0 127 (emptyTable(hash ?p := makeTTVal 3 0 NODE_TYPE_UPPER))
      = Some (0, emptyTable(hash ?p := makeTTVal 3 0 NODE_TYPE_UPPER))"
    using miniMax_lookup [OF d t v g,
        where tt = "emptyTable(hash ?p := makeTTVal 3 0 NODE_TYPE_UPPER)"
        and alpha = 0 and beta = 127, THEN conjunct2, THEN conjunct2, THEN conjunct2,
        THEN conjunct2, THEN conjunct1]
    by (simp add: rd del: childLoop.simps)
  moreover have "miniMax ?c 2 0 1 (emptyTable(hash ?p := makeTTVal 2 1 NODE_TYPE_LOWER))
      = Some (1, emptyTable(hash ?p := makeTTVal 2 1 NODE_TYPE_LOWER))"
    using miniMax_lookup [OF d t v g,
        where tt = "emptyTable(hash ?p := makeTTVal 2 1 NODE_TYPE_LOWER)"
        and alpha = 0 and beta = 1, THEN conjunct2, THEN conjunct2, THEN conjunct2,
        THEN conjunct1]
    by (simp add: rd del: childLoop.simps)
  ultimately show ?thesis
    using d t v g by simp
qed

section \<open>The search with a trace\<close>

text \<open>
  To speak about every call made during a search and every score handed to a table
  store, \<open>miniMaxT\<close> is \<open>miniMax\<close> with a trace: each call appends the value it returns,
  each store appends the score it stores. Dropping the trace gives \<open>miniMax\<close> back
  (\<open>miniMaxT_untraced\<close>).
\<close>

datatype Event = Returned int8 | Stored int8

primrec eventScore :: "Event \<Rightarrow> int8" where
  "eventScore (Returned v) = v"
| "eventScore (Stored v) = v"

primrec childLoopT ::
  "(GameState \<Rightarrow> int8 \<Rightarrow> int8 \<Rightarrow> TTable \<Rightarrow> (int8 \<times> TTable \<times> Event list) option) \<Rightarrow>
   uint8 \<Rightarrow> GameState list \<Rightarrow> int8 \<Rightarrow> int8 \<Rightarrow> int8 \<Rightarrow> TTable \<Rightarrow> Event list \<Rightarrow>
   (int8 \<times> TTable \<times> Event list) option" where
  "childLoopT rec depth [] alpha beta mx tt log = Some (mx, tt, log)"
| "childLoopT rec depth (possibleNext # rest) alpha beta mx tt log =
     (case ttLookup tt (hash possibleNext) depth alpha beta mx of
        Return v \<Rightarrow> Some (v, tt, log)
      | Continue alpha' beta' \<Rightarrow>
          (case rec possibleNext alpha' beta' tt of
             None \<Rightarrow> None
           | Some (r, tt', sub) \<Rightarrow>
               let val = - r;
                   mx' = (if sint mx < sint val then val else mx);
                   tt'' = tt'(hash possibleNext :=
                            makeTTVal depth val (storeType val alpha' beta'))
               in childLoopT rec depth rest alpha' beta' mx' tt'' (log @ sub @ [Stored val])))"

lemma childLoopT_cong [fundef_cong]:
  assumes "depth = depth'" "ps = ps'" "alpha = alpha'" "beta = beta'" "mx = mx'" "tt = tt'"
    "log = log'"
    and "\<And>p a b t. p \<in> set ps' \<Longrightarrow> rec p a b t = rec' p a b t"
  shows "childLoopT rec depth ps alpha beta mx tt log
    = childLoopT rec' depth' ps' alpha' beta' mx' tt' log'"
proof -
  have "childLoopT rec depth' ps' a b m t l = childLoopT rec' depth' ps' a b m t l" for a b m t l
    using assms(8)
  proof (induction ps' arbitrary: a b m t l)
    case Nil
    show ?case by simp
  next
    case (Cons p ps')
    then show ?case
      by (simp split: Lookup.split option.split prod.split)
  qed
  with assms(1-7) show ?thesis by simp
qed

function miniMaxT ::
  "GameState \<Rightarrow> uint8 \<Rightarrow> int8 \<Rightarrow> int8 \<Rightarrow> TTable \<Rightarrow> (int8 \<times> TTable \<times> Event list) option" where
  "miniMaxT curState depth alpha beta tt =
     (if depth = 0 \<or> sint (total curState) \<le> 0 then
        Some (activePlayer curState * eval curState, tt,
              [Returned (activePlayer curState * eval curState)])
      else if \<not> validMove (lastMove curState) then None
      else
        (case childLoopT (\<lambda>possibleNext a b t. miniMaxT possibleNext (depth - 1) a b t)
                depth (getPossibleStates [] curState) alpha beta (- 1) tt [] of
           None \<Rightarrow> None
         | Some (r, tt', log) \<Rightarrow> Some (r, tt', log @ [Returned r])))"
  by pat_completeness auto
termination
proof (relation "measure (\<lambda>(curState, depth, alpha, beta, tt). unat depth)")
  show "wf (measure (\<lambda>(curState, depth, alpha, beta, tt). unat depth))"
    by simp
next
  fix curState :: GameState and depth :: uint8 and alpha beta :: int8 and tt :: TTable
    and p :: GameState and a b :: int8 and t :: TTable
  assume "\<not> (depth = 0 \<or> sint (total curState) \<le> 0)"
  then have "depth \<noteq> 0" by simp
  then have "unat (depth - 1) < unat depth"
    by (simp add: unat_minus_one unat_gt_0)
  then show "((p, depth - 1, a, b, t), (curState, depth, alpha, beta, tt))
      \<in> measure (\<lambda>(curState, depth, alpha, beta, tt). unat depth)"
    by simp
qed

declare miniMaxT.simps [simp del]

definition untraced :: "(int8 \<times> TTable \<times> Event list) option \<Rightarrow> (int8 \<times> TTable) option" where
  "untraced = map_option (\<lambda>(r, tt, log). (r, tt))"

lemma untraced_simps [simp]:
  "untraced None = None" "untraced (Some (r, tt, log)) = Some (r, tt)"
  by (simp_all add: untraced_def)

lemma childLoopT_untraced:
  assumes "\<And>p a b t. p \<in> set ps \<Longrightarrow> untraced (recT p a b t) = rec p a b t"
  shows "untraced (childLoopT recT depth ps alpha beta mx tt log)
    = childLoop rec depth ps alpha beta mx tt"
  using assms
proof (induction ps arbitrary: alpha beta mx tt log)
  case Nil
  show ?case by simp
next
  case (Cons p ps)
  show ?case
  proof (cases "ttLookup tt (hash p) depth alpha beta mx")
    case (Return v)
    then show ?thesis by simp
  next
    case (Continue a' b')
    have r: "untraced (recT p a' b' tt) = rec p a' b' tt"
      using Cons.prems by simp
    show ?thesis
    proof (cases "recT p a' b' tt")
      case None
      with r Continue show ?thesis by simp
    next
      case (Some res)
      obtain r' tt' sub where res: "res = (r', tt', sub)"
        by (cases res) auto
      from r Some res have "rec p a' b' tt = Some (r', tt')" by simp
      with Continue Some res show ?thesis
        using Cons.IH [OF Cons.prems] by (simp add: Let_def)
    qed
  qed
qed

lemma miniMaxT_untraced:
  "untraced (miniMaxT c depth alpha beta tt) = miniMax c depth alpha beta tt"
proof (induction c depth alpha beta tt rule: miniMaxT.induct)
  case (1 c depth alpha beta tt)
  show ?case
  proof (cases "depth = 0 \<or> sint (total c) \<le> 0")
    case True
    then show ?thesis
      by (simp add: miniMaxT.simps [of c] miniMax.simps [of c])
  next
    case base: False
    show ?thesis
    proof (cases "validMove (lastMove c)")
      case False
      with base show ?thesis
        by (simp add: miniMaxT.simps [of c] miniMax.simps [of c])
    next
      case True
      have "untraced (childLoopT (\<lambda>p a b t. miniMaxT p (depth - 1) a b t) depth
                (getPossibleStates [] c) alpha beta (- 1) tt [])
          = childLoop (\<lambda>p a b t. miniMax p (depth - 1) a b t) depth
                (getPossibleStates [] c) alpha beta (- 1) tt"
        by (rule childLoopT_untraced) (use "1.IH" base True in simp)
      with base True show ?thesis
        by (simp add: miniMaxT.simps [of c] miniMax.simps [of c] split: option.split)
          (auto simp: untraced_def)
    qed
  qed
qed

section \<open>Scores stay game outcomes\<close>

text \<open>
  A score is a game outcome when it is -1, 0 or 1. A table is sound for the search when
  every entry reads as no record, as an EXACT record of score 0 or 1, or as an UPPER
  record of a score above 1. The last case is what an EXACT record of score -1 reads as,
  since its byte 0xFF covers the node type bits.
\<close>

definition outcome :: "int8 \<Rightarrow> bool" where
  "outcome v \<longleftrightarrow> v = - 1 \<or> v = 0 \<or> v = 1"

definition tableOk :: "TTable \<Rightarrow> bool" where
  "tableOk tt \<longleftrightarrow>
     (\<forall>h. getNodeType tt h = 0
        \<or> (getNodeType tt h = NODE_TYPE_EXACT \<and> (getRating tt h = 0 \<or> getRating tt h = 1))
        \<or> (getNodeType tt h = NODE_TYPE_UPPER \<and> 1 < sint (getRating tt h)))"

lemma getters_other [simp]:
  "h \<noteq> k \<Longrightarrow> getDepth (tt(k := e)) h = getDepth tt h"
  "h \<noteq> k \<Longrightarrow> getRating (tt(k := e)) h = getRating tt h"
  "h \<noteq> k \<Longrightarrow> getNodeType (tt(k := e)) h = getNodeType tt h"
  by (simp_all add: getDepth_def getRating_def getNodeType_def)

lemma tableOk_empty: "tableOk emptyTable"
  by (simp add: tableOk_def emptyTable_def getNodeType_def)

lemma tableOk_store:
  assumes "tableOk tt" "outcome v"
  shows "tableOk (tt(k := makeTTVal d v NODE_TYPE_EXACT))"
  unfolding tableOk_def
proof
  fix h
  show "getNodeType (tt(k := makeTTVal d v NODE_TYPE_EXACT)) h = 0
        \<or> (getNodeType (tt(k := makeTTVal d v NODE_TYPE_EXACT)) h = NODE_TYPE_EXACT
            \<and> (getRating (tt(k := makeTTVal d v NODE_TYPE_EXACT)) h = 0
               \<or> getRating (tt(k := makeTTVal d v NODE_TYPE_EXACT)) h = 1))
        \<or> (getNodeType (tt(k := makeTTVal d v NODE_TYPE_EXACT)) h = NODE_TYPE_UPPER
            \<and> 1 < sint (getRating (tt(k := makeTTVal d v NODE_TYPE_EXACT)) h))"
  proof (cases "h = k")
    case True
    from assms(2) show ?thesis
      unfolding True outcome_def
      by (auto simp: getNodeType_store getRating_store NODE_TYPE_EXACT_def NODE_TYPE_UPPER_def
          mask_eq_exp_minus_1)
  next
    case False
    with assms(1) show ?thesis
      by (simp add: tableOk_def)
  qed
qed

lemma storeType_outcome:
  "outcome v \<Longrightarrow> 1 < sint beta \<Longrightarrow> storeType v (- 128) beta = NODE_TYPE_EXACT"
  by (auto simp: storeType_def outcome_def)

lemma ttLookup_ok:
  assumes "tableOk tt" "1 < sint beta"
  shows "(\<exists>v. ttLookup tt h depth (- 128) beta mx = Return v \<and> (v = 0 \<or> v = 1))
       \<or> (\<exists>b'. ttLookup tt h depth (- 128) beta mx = Continue (- 128) b' \<and> 1 < sint b')"
proof -
  have s: "- 128 \<le> sint (x :: int8)" for x
    using sint_ge [of x] by simp
  from assms(1) have "getNodeType tt h = 0
        \<or> (getNodeType tt h = NODE_TYPE_EXACT \<and> (getRating tt h = 0 \<or> getRating tt h = 1))
        \<or> (getNodeType tt h = NODE_TYPE_UPPER \<and> 1 < sint (getRating tt h))"
    by (simp add: tableOk_def)
  then show ?thesis
    using assms(2) s [of "getRating tt h"]
    by (auto simp: ttLookup_def Let_def NODE_TYPE_EXACT_def NODE_TYPE_LOWER_def NODE_TYPE_UPPER_def)
qed

lemma outcome_neg: "outcome r \<Longrightarrow> outcome (- r)"
  by (auto simp: outcome_def)

lemma outcome_max: "outcome a \<Longrightarrow> outcome b \<Longrightarrow> outcome (if sint a < sint b then b else a)"
  by simp

lemma wfState_base: "wfState c \<Longrightarrow> outcome (activePlayer c * eval c)"
  by (auto simp: wfState_def outcome_def eval_def)

lemma wfState_performMove:
  "activePlayer c = 1 \<or> activePlayer c = - 1 \<Longrightarrow> validMove m \<Longrightarrow> wfState (performMove c m)"
  by (auto simp: wfState_def performMove_def Let_def)

lemma getPossibleStates_mem:
  "validMove (lastMove c) \<Longrightarrow> p \<in> set (getPossibleStates out c) \<Longrightarrow>
   validMove (lastMove p) \<and> p = performMove c (lastMove p)"
  by (auto simp: validMove_def getPossibleStates_def performMove_def Let_def)

lemma wfState_child:
  assumes "wfState c" "p \<in> set (getPossibleStates out c)"
  shows "wfState p"
proof -
  have v: "validMove (lastMove c)" and a: "activePlayer c = 1 \<or> activePlayer c = - 1"
    using assms(1) by (simp_all add: wfState_def)
  from getPossibleStates_mem [OF v assms(2)]
  have "validMove (lastMove p)" "p = performMove c (lastMove p)"
    by simp_all
  with wfState_performMove [OF a, of "lastMove p"] show ?thesis
    by simp
qed

definition logOk :: "Event list \<Rightarrow> bool" where
  "logOk log \<longleftrightarrow> list_all (\<lambda>e. outcome (eventScore e)) log"

lemma logOk_simps [simp]:
  "logOk []" "logOk (e # es) \<longleftrightarrow> outcome (eventScore e) \<and> logOk es"
  "logOk (xs @ ys) \<longleftrightarrow> logOk xs \<and> logOk ys"
  by (simp_all add: logOk_def)

lemma childLoopT_ok:
  assumes rec: "\<And>p b t. p \<in> set ps \<Longrightarrow> 1 < sint b \<Longrightarrow> tableOk t \<Longrightarrow>
      \<exists>r t' sub. recT p (- 128) b t = Some (r, t', sub) \<and> outcome r \<and> tableOk t' \<and> logOk sub"
    and "tableOk tt" "1 < sint beta" "outcome mx" "logOk log"
  shows "\<exists>r tt' log'. childLoopT recT depth ps (- 128) beta mx tt log = Some (r, tt', log')
      \<and> outcome r \<and> tableOk tt' \<and> logOk log'"
  using assms
proof (induction ps arbitrary: beta mx tt log)
  case Nil
  then show ?case by simp
next
  case (Cons p ps)
  from ttLookup_ok [OF Cons.prems(2,3), of "hash p" depth mx]
  consider v where "ttLookup tt (hash p) depth (- 128) beta mx = Return v" "v = 0 \<or> v = 1"
    | b' where "ttLookup tt (hash p) depth (- 128) beta mx = Continue (- 128) b'" "1 < sint b'"
    by blast
  then show ?case
  proof cases
    case 1
    with Cons.prems show ?thesis
      by (auto simp: outcome_def)
  next
    case 2
    from Cons.prems(1) [of p b' tt] 2(2) Cons.prems(2)
    obtain r t' sub where call: "recT p (- 128) b' tt = Some (r, t', sub)"
      and r: "outcome r" and t': "tableOk t'" and sub: "logOk sub"
      by auto
    let ?val = "- r"
    have val: "outcome ?val"
      using r by (rule outcome_neg)
    have st: "storeType ?val (- 128) b' = NODE_TYPE_EXACT"
      using val 2(2) by (rule storeType_outcome)
    have tab: "tableOk (t'(hash p := makeTTVal depth ?val NODE_TYPE_EXACT))"
      using t' val by (rule tableOk_store)
    have mx': "outcome (if sint mx < sint ?val then ?val else mx)"
      using Cons.prems(4) val by simp
    have lg: "logOk (log @ sub @ [Stored ?val])"
      using Cons.prems(5) sub val by simp
    have "\<exists>r' tt' log'. childLoopT recT depth ps (- 128) b'
              (if sint mx < sint ?val then ?val else mx)
              (t'(hash p := makeTTVal depth ?val NODE_TYPE_EXACT)) (log @ sub @ [Stored ?val])
            = Some (r', tt', log') \<and> outcome r' \<and> tableOk tt' \<and> logOk log'"
      by (rule Cons.IH [OF _ tab 2(2) mx' lg]) (use Cons.prems(1) in auto)
    with 2(1) call st show ?thesis
      by (simp add: Let_def)
  qed
qed

lemma miniMaxT_ok:
  assumes "wfState c" "tableOk tt" "alpha = - 128" "1 < sint beta"
  shows "\<exists>r tt' log. miniMaxT c depth alpha beta tt = Some (r, tt', log)
      \<and> outcome r \<and> tableOk tt' \<and> logOk log"
  using assms
proof (induction c depth alpha beta tt rule: miniMaxT.induct)
  case (1 c depth alpha beta tt)
  show ?case
  proof (cases "depth = 0 \<or> sint (total c) \<le> 0")
    case True
    with "1.prems" show ?thesis
      by (simp add: miniMaxT.simps [of c] wfState_base)
  next
    case False
    have valid: "validMove (lastMove c)"
      using "1.prems"(1) by (simp add: wfState_def)
    have "\<exists>r tt' log'. childLoopT (\<lambda>p a b t. miniMaxT p (depth - 1) a b t) depth
              (getPossibleStates [] c) (- 128) beta (- 1) tt []
            = Some (r, tt', log') \<and> outcome r \<and> tableOk tt' \<and> logOk log'"
    proof (rule childLoopT_ok)
      fix p :: GameState and b :: int8 and t :: TTable
      assume p: "p \<in> set (getPossibleStates [] c)" and b: "1 < sint b" and t: "tableOk t"
      have "wfState p"
        using "1.prems"(1) p by (rule wfState_child)
      then show "\<exists>r t' sub. miniMaxT p (depth - 1) (- 128) b t = Some (r, t', sub)
          \<and> outcome r \<and> tableOk t' \<and> logOk sub"
        using "1.IH" False valid p t b by simp
    next
      show "tableOk tt" by fact
      show "1 < sint beta" by fact
      show "outcome (- 1)" by (simp add: outcome_def)
      show "logOk []" by simp
    qed
    then obtain r tt' log' where
      "childLoopT (\<lambda>p a b t. miniMaxT p (depth - 1) a b t) depth
              (getPossibleStates [] c) (- 128) beta (- 1) tt [] = Some (r, tt', log')"
      "outcome r" "tableOk tt'" "logOk log'"
      by blast
    with False valid "1.prems"(3) show ?thesis
      by (simp add: miniMaxT.simps [of c])
  qed
qed

text \<open>
  Claim C10. For a configuration of the data model, searched from the empty table with
  the window -128, 127 and any depth bound, the search returns, the value it returns and
  the value returned by every recursive call made during it are -1, 0 or 1, and so is
  every score passed to a table store.
\<close>

theorem miniMax_scores_are_outcomes:
  assumes "wfState c"
  shows "\<exists>r tt' log. miniMaxT c depth (- 128) 127 emptyTable = Some (r, tt', log)
      \<and> miniMax c depth (- 128) 127 emptyTable = Some (r, tt')
      \<and> outcome r \<and> list_all (\<lambda>e. outcome (eventScore e)) log"
proof -
  from miniMaxT_ok [OF assms tableOk_empty, of "- 128" 127 depth]
  obtain r tt' log where t: "miniMaxT c depth (- 128) 127 emptyTable = Some (r, tt', log)"
    and "outcome r" "logOk log"
    by auto
  moreover from t miniMaxT_untraced [of c depth "- 128" 127 emptyTable]
  have "miniMax c depth (- 128) 127 emptyTable = Some (r, tt')"
    by simp
  ultimately show ?thesis
    by (auto simp: logOk_def)
qed

theorem miniMax_scores_are_outcomes_witness:
  "wfState \<lparr>lastMove = 2, total = 40, activePlayer = - 1, winner = 0\<rparr>
   \<and> (\<exists>r tt' log.
        miniMaxT \<lparr>lastMove = 2, total = 40, activePlayer = - 1, winner = 0\<rparr> 100 (- 128) 127 emptyTable
          = Some (r, tt', log)
        \<and> miniMax \<lparr>lastMove = 2, total = 40, activePlayer = - 1, winner = 0\<rparr> 100 (- 128) 127 emptyTable
          = Some (r, tt')
        \<and> outcome r \<and> list_all (\<lambda>e. outcome (eventScore e)) log)"
proof -
  have w: "wfState \<lparr>lastMove = 2, total = 40, activePlayer = - 1, winner = 0\<rparr>"
    by (simp add: wfState_def validMove_def)
  show ?thesis
    using w miniMax_scores_are_outcomes [OF w, of 100] by simp
qed

section \<open>Move selection\<close>

lemma miniMax_ok:
  assumes "wfState c" "tableOk tt" "1 < sint beta"
  shows "\<exists>r tt'. miniMax c depth (- 128) beta tt = Some (r, tt') \<and> outcome r \<and> tableOk tt'"
proof -
  from miniMaxT_ok [OF assms(1,2) refl assms(3), of depth]
  obtain r tt' log where t: "miniMaxT c depth (- 128) beta tt = Some (r, tt', log)"
    and ok: "outcome r" "tableOk tt'"
    by auto
  from t miniMaxT_untraced [of c depth "- 128" beta tt]
  have "miniMax c depth (- 128) beta tt = Some (r, tt')"
    by simp
  with ok show ?thesis
    by blast
qed

text \<open>
  \<^verbatim>\<open>makeBestMove\<close>. Its array \<open>nextPossible\<close> is static: it keeps its four elements from
  one call to the next, so the model takes the array as it was left and returns it as it
  is left, beside the chosen successor and the table. \<open>bestLoop\<close> is the loop over the
  indices 0 to 3; \<open>maxI\<close> starts as 0xFF and \<open>mx\<close> as -2.
\<close>

primrec bestLoop ::
  "GameState list \<Rightarrow> uint8 list \<Rightarrow> int8 \<Rightarrow> uint8 \<Rightarrow> TTable \<Rightarrow> (int8 \<times> uint8 \<times> TTable) option" where
  "bestLoop nextPossible [] mx maxI tt = Some (mx, maxI, tt)"
| "bestLoop nextPossible (i # rest) mx maxI tt =
     (case miniMax (nextPossible ! unat i) 100 (- 128) 127 tt of
        None \<Rightarrow> None
      | Some (r, tt') \<Rightarrow>
          let evaluation = - r
          in if sint mx \<le> sint evaluation
             then bestLoop nextPossible rest evaluation i tt'
             else bestLoop nextPossible rest mx maxI tt')"

definition makeBestMove ::
  "GameState list \<Rightarrow> GameState \<Rightarrow> TTable \<Rightarrow> (GameState \<times> GameState list \<times> TTable) option" where
  "makeBestMove nextPossible curState tt =
     (let nextPossible' = getPossibleStates nextPossible curState in
      case bestLoop nextPossible' [0, 1, 2, 3] (- 2) 255 tt of
        None \<Rightarrow> None
      | Some (mx, maxI, tt') \<Rightarrow>
          Some (if mx = - 2 then nextPossible' ! 0 else nextPossible' ! unat maxI,
                nextPossible', tt'))"

text \<open>
  The scores of a list of successors in the order of the list: each is the negated result
  of a search at depth 100 with the window -128, 127, on the table left by the search
  before it.
\<close>

primrec evaluations :: "GameState list \<Rightarrow> TTable \<Rightarrow> (int8 list \<times> TTable) option" where
  "evaluations [] tt = Some ([], tt)"
| "evaluations (s # rest) tt =
     (case miniMax s 100 (- 128) 127 tt of
        None \<Rightarrow> None
      | Some (r, tt') \<Rightarrow>
          (case evaluations rest tt' of
             None \<Rightarrow> None
           | Some (es, tt'') \<Rightarrow> Some (- r # es, tt'')))"

lemma getPossibleStates_four:
  assumes "validMove (lastMove c)"
  obtains s0 s1 s2 s3 where "getPossibleStates out c = [s0, s1, s2, s3]"
  using assms by (auto simp: validMove_def getPossibleStates_def)

lemma last_best:
  fixes e0 e1 e2 e3 :: int
  defines "i1 \<equiv> (if e0 \<le> e1 then 1 else 0 :: nat)"
  defines "m1 \<equiv> (if e0 \<le> e1 then e1 else e0)"
  defines "i2 \<equiv> (if m1 \<le> e2 then 2 else i1)"
  defines "m2 \<equiv> (if m1 \<le> e2 then e2 else m1)"
  defines "i3 \<equiv> (if m2 \<le> e3 then 3 else i2)"
  shows "i3 < 4 \<and> (\<forall>j<4. [e0, e1, e2, e3] ! j \<le> [e0, e1, e2, e3] ! i3)
    \<and> (\<forall>j<4. i3 < j \<longrightarrow> [e0, e1, e2, e3] ! j < [e0, e1, e2, e3] ! i3)"
  unfolding i3_def m2_def i2_def m1_def i1_def
  by (auto simp: less_Suc_eq numeral_eq_Suc nth_Cons')


lemma sint_outcome: "outcome v \<Longrightarrow> - 1 \<le> sint v \<and> sint v \<le> 1 \<and> v \<noteq> - 2"
  by (auto simp: outcome_def)

text \<open>
  Claim C9. For a configuration of the data model and a table left by earlier searches
  (or the empty one), \<open>makeBestMove\<close> scores the four successors in generation order,
  each with a search at depth 100, and returns the successor with the maximal score;
  because the running best is compared with \<open>\<ge>\<close>, among successors of equal
  score the last one in generation order is returned: every later successor scores
  strictly less than the returned one.
\<close>

theorem makeBestMove_last_best:
  assumes "wfState c" "tableOk tt"
  shows "\<exists>es tt' i. evaluations (getPossibleStates nextPossible c) tt = Some (es, tt')
      \<and> length es = 4 \<and> i < 4
      \<and> makeBestMove nextPossible c tt
          = Some (getPossibleStates nextPossible c ! i, getPossibleStates nextPossible c, tt')
      \<and> (\<forall>j<4. sint (es ! j) \<le> sint (es ! i))
      \<and> (\<forall>j<4. i < j \<longrightarrow> sint (es ! j) < sint (es ! i))
      \<and> tableOk tt'"
proof -
  have valid: "validMove (lastMove c)"
    using assms(1) by (simp add: wfState_def)
  from valid obtain s0 s1 s2 s3 where gs: "getPossibleStates nextPossible c = [s0, s1, s2, s3]"
    by (rule getPossibleStates_four)
  have wf: "wfState s0" "wfState s1" "wfState s2" "wfState s3"
    using wfState_child [OF assms(1), of _ nextPossible] gs by simp_all
  have w: "1 < sint (127 :: int8)"
    by simp
  from miniMax_ok [OF wf(1) assms(2) w, of 100]
  obtain r0 t0 where c0: "miniMax s0 100 (- 128) 127 tt = Some (r0, t0)"
    and r0: "outcome r0" and t0: "tableOk t0"
    by blast
  from miniMax_ok [OF wf(2) t0 w, of 100]
  obtain r1 t1 where c1: "miniMax s1 100 (- 128) 127 t0 = Some (r1, t1)"
    and r1: "outcome r1" and t1: "tableOk t1"
    by blast
  from miniMax_ok [OF wf(3) t1 w, of 100]
  obtain r2 t2 where c2: "miniMax s2 100 (- 128) 127 t1 = Some (r2, t2)"
    and r2: "outcome r2" and t2: "tableOk t2"
    by blast
  from miniMax_ok [OF wf(4) t2 w, of 100]
  obtain r3 t3 where c3: "miniMax s3 100 (- 128) 127 t2 = Some (r3, t3)"
    and r3: "outcome r3" and t3: "tableOk t3"
    by blast
  let ?e0 = "- r0" and ?e1 = "- r1" and ?e2 = "- r2" and ?e3 = "- r3"
  have e: "outcome ?e0" "outcome ?e1" "outcome ?e2" "outcome ?e3"
    using r0 r1 r2 r3 by (simp_all add: outcome_neg)
  note b = e [THEN sint_outcome]
  have ev: "evaluations [s0, s1, s2, s3] tt = Some ([?e0, ?e1, ?e2, ?e3], t3)"
    using c0 c1 c2 c3 by simp
  define i1 :: nat where "i1 = (if sint ?e0 \<le> sint ?e1 then 1 else 0)"
  define m1 where "m1 = (if sint ?e0 \<le> sint ?e1 then sint ?e1 else sint ?e0)"
  define i2 :: nat where "i2 = (if m1 \<le> sint ?e2 then 2 else i1)"
  define m2 where "m2 = (if m1 \<le> sint ?e2 then sint ?e2 else m1)"
  define i3 :: nat where "i3 = (if m2 \<le> sint ?e3 then 3 else i2)"
  have best: "makeBestMove nextPossible c tt = Some ([s0, s1, s2, s3] ! i3, [s0, s1, s2, s3], t3)"
    using c0 c1 c2 c3 b
    by (simp add: makeBestMove_def gs Let_def i3_def m2_def i2_def m1_def i1_def)
  from last_best [of "sint ?e0" "sint ?e1" "sint ?e2" "sint ?e3"]
  have "i3 < 4 \<and> (\<forall>j<4. sint ([?e0, ?e1, ?e2, ?e3] ! j) \<le> sint ([?e0, ?e1, ?e2, ?e3] ! i3))
    \<and> (\<forall>j<4. i3 < j \<longrightarrow> sint ([?e0, ?e1, ?e2, ?e3] ! j) < sint ([?e0, ?e1, ?e2, ?e3] ! i3))"
    unfolding i3_def m2_def i2_def m1_def i1_def
    by (auto simp: less_Suc_eq numeral_eq_Suc nth_Cons')
  with ev best gs t3 show ?thesis
    by (intro exI [of _ "[?e0, ?e1, ?e2, ?e3]"] exI [of _ t3] exI [of _ i3]) simp
qed

lemma miniMax_terminal:
  "sint (total c) \<le> 0 \<Longrightarrow> miniMax c depth alpha beta tt = Some (activePlayer c * eval c, tt)"
  by (simp add: miniMax.simps)

theorem makeBestMove_last_best_witness:
  "wfState \<lparr>lastMove = 1, total = 2, activePlayer = 1, winner = 0\<rparr>
   \<and> tableOk emptyTable
   \<and> (\<exists>es tt' i.
        evaluations (getPossibleStates [] \<lparr>lastMove = 1, total = 2, activePlayer = 1, winner = 0\<rparr>)
          emptyTable = Some (es, tt')
        \<and> length es = 4 \<and> i < 4
        \<and> makeBestMove [] \<lparr>lastMove = 1, total = 2, activePlayer = 1, winner = 0\<rparr> emptyTable
            = Some (getPossibleStates [] \<lparr>lastMove = 1, total = 2, activePlayer = 1, winner = 0\<rparr> ! i,
                getPossibleStates [] \<lparr>lastMove = 1, total = 2, activePlayer = 1, winner = 0\<rparr>, tt')
        \<and> (\<forall>j<4. sint (es ! j) \<le> sint (es ! i))
        \<and> (\<forall>j<4. i < j \<longrightarrow> sint (es ! j) < sint (es ! i))
        \<and> tableOk tt')
   \<and> map_option fst
         (evaluations (getPossibleStates [] \<lparr>lastMove = 1, total = 2, activePlayer = 1, winner = 0\<rparr>)
            emptyTable) = Some [- 1, - 1, - 1, - 1]
   \<and> map_option (lastMove \<circ> fst)
         (makeBestMove [] \<lparr>lastMove = 1, total = 2, activePlayer = 1, winner = 0\<rparr> emptyTable)
       = Some 2"
proof -
  let ?c = "\<lparr>lastMove = 1, total = 2, activePlayer = 1, winner = 0\<rparr>"
  have w: "wfState ?c"
    by (simp add: wfState_def validMove_def)
  have ev: "map_option fst (evaluations (getPossibleStates [] ?c) emptyTable)
      = Some [- 1, - 1, - 1, - 1]"
    by (simp add: getPossibleStates_def performMove_def Let_def miniMax_terminal eval_def)
  have mv: "map_option (lastMove \<circ> fst) (makeBestMove [] ?c emptyTable) = Some 2"
    by (simp add: makeBestMove_def getPossibleStates_def performMove_def Let_def miniMax_terminal
        eval_def)
  from w tableOk_empty makeBestMove_last_best [OF w tableOk_empty, of "[]"] ev mv
  show ?thesis
    by (intro conjI)
qed

section \<open>Full minimax and the pruned search\<close>


































section \<open>A search that differs from full minimax\<close>
















































































































































end
